theory Spec2Isabelle
  imports Main
begin

section \<open>Largest sub-square with a perimeter of ones\<close>

text \<open>
  A shallow embedding of the notebook \<^verbatim>\<open>sub_square_implementation.ipynb\<close>: the
  \<^verbatim>\<open>Square\<close> dataclass with its validation, and the \<^verbatim>\<open>SlidingWindowSearch\<close>
  solver (\<^verbatim>\<open>_get_rolling_windows\<close>, \<^verbatim>\<open>_is_sub_square\<close>,
  \<^verbatim>\<open>find_largest_sub_square\<close>).

  Exceptions are values: a function that can raise returns \<open>error + 'a\<close>, with
  \<open>Inl\<close> the exception's class.
\<close>

subsection \<open>Python values and NumPy arrays\<close>

text \<open>
  The exception classes the code raises itself (\<^verbatim>\<open>TypeError\<close>, \<^verbatim>\<open>ValueError\<close>,
  \<^verbatim>\<open>SubSquareDNEError\<close>) and the one NumPy raises for an integer subscript that is
  out of bounds (\<^verbatim>\<open>IndexError\<close>).
\<close>

datatype error = TypeError | ValueError | IndexError | SubSquareDNEError

text \<open>
  \<^verbatim>\<open>isinstance(x, np.ndarray)\<close> holds of the base class and of its subclass
  \<^verbatim>\<open>np.matrix\<close>; the two differ in what a subscript returns.
\<close>

datatype array_class = NpNdarray | NpMatrix

text \<open>
  An \<^verbatim>\<open>np.ndarray\<close> of any rank: its \<^verbatim>\<open>shape\<close>, its elements in row-major order
  and its class. Elements are integers: the code only ever compares them with 0 and 1.
\<close>

record ndarray =
  shape :: "nat list"
  flat :: "int list"
  cls :: array_class

definition ndim :: "ndarray \<Rightarrow> nat" where
  "ndim a = length (shape a)"

text \<open>The buffer of a real array holds one element per index tuple.\<close>

definition wf_ndarray :: "ndarray \<Rightarrow> bool" where
  "wf_ndarray a = (length (flat a) = prod_list (shape a))"

text \<open>
  A rank-2 array, the form in which a validated matrix and its windows are carried:
  the cell at row \<open>i\<close>, column \<open>j\<close> is element \<open>i * ncols + j\<close> of the buffer.
\<close>

record array2 =
  nrows :: nat
  ncols :: nat
  cells :: "int list"
  cls2 :: array_class

definition wf_array2 :: "array2 \<Rightarrow> bool" where
  "wf_array2 a = (length (cells a) = nrows a * ncols a)"

definition at2 :: "array2 \<Rightarrow> nat \<Rightarrow> nat \<Rightarrow> int" where
  "at2 a i j = cells a ! (i * ncols a + j)"

text \<open>The \<^verbatim>\<open>Square\<close> dataclass: one field, the matrix.\<close>

record square =
  matrix :: array2

text \<open>
  The values a caller can pass where the code tests \<^verbatim>\<open>isinstance\<close>: \<^verbatim>\<open>None\<close>,
  numbers, (nested) lists, NumPy arrays and \<^verbatim>\<open>Square\<close> instances.
\<close>

datatype pyobj =
    PyNone
  | PyInt int
  | PyList "pyobj list"
  | PyNdarray ndarray
  | PySquare square

subsection \<open>Subscripts\<close>

text \<open>
  An integer subscript \<open>i\<close> on an axis of length \<open>d\<close>: negative values count from the
  end, and a value outside \<open>[-d, d)\<close> raises \<^verbatim>\<open>IndexError\<close>.
\<close>

definition norm_index :: "int \<Rightarrow> nat \<Rightarrow> error + nat" where
  "norm_index i d =
     (let k = (if i < 0 then i + int d else i)
      in if 0 \<le> k \<and> k < int d then Inr (nat k) else Inl IndexError)"

text \<open>
  A slice bound on an axis of length \<open>d\<close>: negative values count from the end, and the
  result is clipped to \<open>[0, d]\<close>; a slice never raises.
\<close>

definition clip_bound :: "int \<Rightarrow> nat \<Rightarrow> nat" where
  "clip_bound b d = (if b < 0 then nat (max 0 (b + int d)) else min (nat b) d)"

definition slice_indices :: "int \<Rightarrow> int \<Rightarrow> nat \<Rightarrow> nat list" where
  "slice_indices start stop d = [clip_bound start d ..< clip_bound stop d]"

text \<open>
  \<^verbatim>\<open>a[i, :]\<close>: one row. On a base-class array the result has rank 1, shape
  \<open>(ncols)\<close>; on an \<^verbatim>\<open>np.matrix\<close> it stays a matrix, of shape \<open>(1, ncols)\<close>.
\<close>

definition getitem_int_all :: "array2 \<Rightarrow> int \<Rightarrow> error + ndarray" where
  "getitem_int_all a i =
     (case norm_index i (nrows a) of
        Inl e \<Rightarrow> Inl e
      | Inr r \<Rightarrow>
          Inr \<lparr>shape = (case cls2 a of NpNdarray \<Rightarrow> [ncols a] | NpMatrix \<Rightarrow> [1, ncols a]),
               flat = map (\<lambda>j. at2 a r j) [0 ..< ncols a],
               cls = cls2 a\<rparr>)"

text \<open>
  \<^verbatim>\<open>a[start:stop, j]\<close>: a run of one column. On a base-class array the result has
  rank 1, shape \<open>(len)\<close>; on an \<^verbatim>\<open>np.matrix\<close> it stays a matrix, of shape \<open>(len, 1)\<close>.
\<close>

definition getitem_slice_int :: "array2 \<Rightarrow> int \<Rightarrow> int \<Rightarrow> int \<Rightarrow> error + ndarray" where
  "getitem_slice_int a start stop j =
     (case norm_index j (ncols a) of
        Inl e \<Rightarrow> Inl e
      | Inr c \<Rightarrow>
          (let rs = slice_indices start stop (nrows a)
           in Inr \<lparr>shape = (case cls2 a of NpNdarray \<Rightarrow> [length rs] | NpMatrix \<Rightarrow> [length rs, 1]),
                    flat = map (\<lambda>i. at2 a i c) rs,
                    cls = cls2 a\<rparr>))"

text \<open>
  \<^verbatim>\<open>a[r0:r1, c0:c1]\<close>: a rectangular block, as a rank-2 array of the class of \<open>a\<close>.
\<close>

definition getitem_slice_slice :: "array2 \<Rightarrow> int \<Rightarrow> int \<Rightarrow> int \<Rightarrow> int \<Rightarrow> array2" where
  "getitem_slice_slice a r0 r1 c0 c1 =
     (let rs = slice_indices r0 r1 (nrows a);
          cs = slice_indices c0 c1 (ncols a)
      in \<lparr>nrows = length rs, ncols = length cs,
          cells = concat (map (\<lambda>i. map (\<lambda>j. at2 a i j) cs) rs),
          cls2 = cls2 a\<rparr>)"

text \<open>
  \<^verbatim>\<open>np.concatenate(arrays)\<close>, along the first axis: the arrays must have the same rank,
  at least 1, and agree in every dimension but the first; otherwise it raises
  \<^verbatim>\<open>ValueError\<close>. The result is a matrix when one of the arrays is.
\<close>

definition concatenate :: "ndarray list \<Rightarrow> error + ndarray" where
  "concatenate arrays =
     (case arrays of
        [] \<Rightarrow> Inl ValueError
      | a # _ \<Rightarrow>
          if shape a = [] then Inl ValueError
          else if \<not> list_all (\<lambda>b. length (shape b) = length (shape a) \<and>
                                     tl (shape b) = tl (shape a)) arrays
          then Inl ValueError
          else Inr \<lparr>shape = sum_list (map (\<lambda>b. hd (shape b)) arrays) # tl (shape a),
                    flat = concat (map flat arrays),
                    cls = (if list_all (\<lambda>b. cls b = NpNdarray) arrays then NpNdarray
                           else NpMatrix)\<rparr>)"

text \<open>\<^verbatim>\<open>range(k)\<close> and \<^verbatim>\<open>range(m, 0, -1)\<close>.\<close>

definition py_range :: "int \<Rightarrow> int list" where
  "py_range k = map int [0 ..< nat k]"

definition py_range_down :: "int \<Rightarrow> int list" where
  "py_range_down m = map int (rev [1 ..< Suc (nat m)])"

subsection \<open>The Square dataclass\<close>

text \<open>
  \<^verbatim>\<open>Square._valid_matrix\<close>: the four checks in the order of the source. On success
  the matrix is known to have rank 2 and is returned in that form.
\<close>

definition valid_matrix :: "pyobj \<Rightarrow> error + array2" where
  "valid_matrix m =
     (case m of
        PyNdarray a \<Rightarrow>
          if ndim a \<noteq> 2 then Inl ValueError
          else
            let rows = shape a ! 0; cols = shape a ! 1
            in if rows \<noteq> cols then Inl ValueError
               else if \<not> list_all (\<lambda>x. x \<in> set [0, 1]) (flat a) then Inl ValueError
               else Inr \<lparr>nrows = rows, ncols = cols, cells = flat a, cls2 = cls a\<rparr>
      | _ \<Rightarrow> Inl TypeError)"

text \<open>\<^verbatim>\<open>Square(matrix=m)\<close>: the generated constructor followed by \<^verbatim>\<open>__post_init__\<close>.\<close>

definition Square :: "pyobj \<Rightarrow> error + square" where
  "Square m =
     (case valid_matrix m of
        Inl e \<Rightarrow> Inl e
      | Inr a \<Rightarrow> Inr \<lparr>matrix = a\<rparr>)"

text \<open>The property \<^verbatim>\<open>Square.size\<close>: \<^verbatim>\<open>self.matrix.shape[0]\<close>.\<close>

definition size_sq :: "square \<Rightarrow> int" where
  "size_sq sq = int (nrows (matrix sq))"

subsection \<open>SlidingWindowSearch\<close>

text \<open>
  \<^verbatim>\<open>_get_rolling_windows\<close> is a generator; the model returns what consuming it to
  the end gives: the exception raised before the first item, or the items in order.
\<close>

definition get_rolling_windows :: "square \<Rightarrow> int \<Rightarrow> error + array2 list" where
  "get_rolling_windows sq sub_square_size =
     (let n = size_sq sq
      in if sub_square_size > n \<or> sub_square_size < 1 then Inl ValueError
         else Inr (concat (map (\<lambda>start_row.
                 map (\<lambda>start_col.
                   getitem_slice_slice (matrix sq)
                     start_row (start_row + sub_square_size)
                     start_col (start_col + sub_square_size))
                   (py_range (n - sub_square_size + 1)))
                 (py_range (n - sub_square_size + 1)))))"

text \<open>
  \<^verbatim>\<open>_is_sub_square\<close>: the four subscripts, \<^verbatim>\<open>np.concatenate\<close> of the four
  results, and \<^verbatim>\<open>np.all(perimeter == 1)\<close>.
\<close>

definition is_sub_square :: "array2 \<Rightarrow> error + bool" where
  "is_sub_square sub_square =
     (case getitem_int_all sub_square 0 of
        Inl e \<Rightarrow> Inl e
      | Inr top_row \<Rightarrow>
     (case getitem_int_all sub_square (- 1) of
        Inl e \<Rightarrow> Inl e
      | Inr bottom_row \<Rightarrow>
     (case getitem_slice_int sub_square 1 (- 1) 0 of
        Inl e \<Rightarrow> Inl e
      | Inr left_column \<Rightarrow>
     (case getitem_slice_int sub_square 1 (- 1) (- 1) of
        Inl e \<Rightarrow> Inl e
      | Inr right_column \<Rightarrow>
     (case concatenate [top_row, bottom_row, left_column, right_column] of
        Inl e \<Rightarrow> Inl e
      | Inr perimeter \<Rightarrow> Inr (list_all (\<lambda>x. x = 1) (flat perimeter)))))))"

text \<open>
  The inner loop of \<^verbatim>\<open>find_largest_sub_square\<close> over the windows of one size:
  \<open>None\<close> when the loop ends without returning.
\<close>

fun scan_windows :: "array2 list \<Rightarrow> int \<Rightarrow> (error + array2 \<times> int) option" where
  "scan_windows [] sz = None"
| "scan_windows (sub_square # rest) sz =
     (case is_sub_square sub_square of
        Inl e \<Rightarrow> Some (Inl e)
      | Inr b \<Rightarrow> if b then Some (Inr (sub_square, sz)) else scan_windows rest sz)"

text \<open>The outer loop over the sizes, and the \<^verbatim>\<open>raise\<close> that follows it.\<close>

fun search_sizes :: "square \<Rightarrow> int list \<Rightarrow> error + array2 \<times> int" where
  "search_sizes sq [] = Inl SubSquareDNEError"
| "search_sizes sq (sz # sizes) =
     (case get_rolling_windows sq sz of
        Inl e \<Rightarrow> Inl e
      | Inr windows \<Rightarrow>
          (case scan_windows windows sz of
             Some r \<Rightarrow> r
           | None \<Rightarrow> search_sizes sq sizes))"

definition find_largest_sub_square :: "pyobj \<Rightarrow> error + array2 \<times> int" where
  "find_largest_sub_square square =
     (case square of
        PySquare sq \<Rightarrow> search_sizes sq (py_range_down (size_sq sq))
      | _ \<Rightarrow> Inl TypeError)"

subsection \<open>Vocabulary of the specification\<close>

text \<open>
  A placement is a triple \<open>(k, r, c)\<close>: a size and the anchor (row, column) of its
  top-left cell. \<open>window a k r c\<close> is the block the source extracts for it,
  \<^verbatim>\<open>matrix[r:r + k, c:c + k]\<close>.
\<close>

definition window :: "array2 \<Rightarrow> nat \<Rightarrow> nat \<Rightarrow> nat \<Rightarrow> array2" where
  "window a k r c = getitem_slice_slice a (int r) (int r + int k) (int c) (int c + int k)"

text \<open>
  The perimeter of a placement is all ones: every cell of the grid that lies on the
  first or last row, or on the first or last column, of the block equals 1.
\<close>

definition perimeter_ones :: "array2 \<Rightarrow> nat \<Rightarrow> nat \<Rightarrow> nat \<Rightarrow> bool" where
  "perimeter_ones a k r c =
     (\<forall>i\<in>set [0 ..< k]. \<forall>j\<in>set [0 ..< k].
        (i = 0 \<or> i = k - 1 \<or> j = 0 \<or> j = k - 1) \<longrightarrow> at2 a (r + i) (c + j) = 1)"

fun qualifies :: "array2 \<Rightarrow> nat \<times> nat \<times> nat \<Rightarrow> bool" where
  "qualifies a (k, r, c) = perimeter_ones a k r c"

text \<open>
  The scan order of the specification: the anchors of one size in row-major order (row
  ascending, then column ascending), and the sizes from \<open>n\<close> down to 1.
\<close>

definition anchors :: "nat \<Rightarrow> nat \<Rightarrow> (nat \<times> nat) list" where
  "anchors n k = List.product [0 ..< n - k + 1] [0 ..< n - k + 1]"

definition placements :: "nat \<Rightarrow> (nat \<times> nat \<times> nat) list" where
  "placements n =
     concat (map (\<lambda>k. map (\<lambda>(r, c). (k, r, c)) (anchors n k)) (rev [1 ..< Suc n]))"

text \<open>
  The order the scan induces: an anchor comes before another when it is higher up, or on
  the same row and further left; a placement comes before another when it is larger, or
  of the same size with an earlier anchor.
\<close>

definition row_major :: "nat \<times> nat \<Rightarrow> nat \<times> nat \<Rightarrow> bool" where
  "row_major p q \<longleftrightarrow> fst p < fst q \<or> (fst p = fst q \<and> snd p < snd q)"

definition scans_before :: "nat \<times> nat \<times> nat \<Rightarrow> nat \<times> nat \<times> nat \<Rightarrow> bool" where
  "scans_before p q \<longleftrightarrow> fst q < fst p \<or> (fst q = fst p \<and> row_major (snd p) (snd q))"

text \<open>The arrays of the notebook's unit tests.\<close>

definition grid_0_1_1 :: ndarray where
  "grid_0_1_1 = \<lparr>shape = [3, 3], flat = [0, 1, 1,  0, 1, 1,  1, 1, 1], cls = NpNdarray\<rparr>"

definition square_3x3 :: ndarray where
  "square_3x3 = \<lparr>shape = [3, 3], flat = [1, 1, 1,  1, 0, 1,  1, 1, 1], cls = NpNdarray\<rparr>"

definition grid_zeros :: ndarray where
  "grid_zeros = \<lparr>shape = [3, 3], flat = [0, 0, 0,  0, 0, 0,  0, 0, 0], cls = NpNdarray\<rparr>"

definition cube_zeros :: ndarray where
  "cube_zeros = \<lparr>shape = [3, 3, 3], flat = replicate 27 0, cls = NpNdarray\<rparr>"

definition oblong_zeros :: ndarray where
  "oblong_zeros = \<lparr>shape = [2, 3], flat = replicate 6 0, cls = NpNdarray\<rparr>"

definition grid_with_3 :: ndarray where
  "grid_with_3 = \<lparr>shape = [3, 3], flat = [3, 0, 0,  0, 0, 0,  0, 0, 0], cls = NpNdarray\<rparr>"

definition square_4x4 :: ndarray where
  "square_4x4 =
     \<lparr>shape = [4, 4], flat = [1, 1, 1, 1,  1, 0, 0, 1,  1, 0, 0, 1,  1, 1, 1, 1],
      cls = NpNdarray\<rparr>"

text \<open>
  Three of them as \<^verbatim>\<open>np.matrix\<close> objects, for instance \<^verbatim>\<open>np.matrix([[0,1,1],[0,1,1],[1,1,1]])\<close>.
\<close>

definition np_matrix_0_1_1 :: ndarray where
  "np_matrix_0_1_1 = \<lparr>shape = [3, 3], flat = [0, 1, 1,  0, 1, 1,  1, 1, 1], cls = NpMatrix\<rparr>"

definition np_matrix_zeros :: ndarray where
  "np_matrix_zeros = \<lparr>shape = [3, 3], flat = [0, 0, 0,  0, 0, 0,  0, 0, 0], cls = NpMatrix\<rparr>"

definition np_matrix_4x4 :: ndarray where
  "np_matrix_4x4 =
     \<lparr>shape = [4, 4], flat = [1, 1, 1, 1,  1, 0, 0, 1,  1, 0, 0, 1,  1, 1, 1, 1],
      cls = NpMatrix\<rparr>"

text \<open>The same test matrices once validated, and the block the integration test expects.\<close>

abbreviation matrix_4x4 :: array2 where
  "matrix_4x4 \<equiv>
     \<lparr>nrows = 4, ncols = 4, cells = [1, 1, 1, 1,  1, 0, 0, 1,  1, 0, 0, 1,  1, 1, 1, 1],
      cls2 = NpNdarray\<rparr>"

abbreviation matrix_0_1_1 :: array2 where
  "matrix_0_1_1 \<equiv>
     \<lparr>nrows = 3, ncols = 3, cells = [0, 1, 1,  0, 1, 1,  1, 1, 1], cls2 = NpNdarray\<rparr>"

abbreviation matrix_zeros :: array2 where
  "matrix_zeros \<equiv>
     \<lparr>nrows = 3, ncols = 3, cells = [0, 0, 0,  0, 0, 0,  0, 0, 0], cls2 = NpNdarray\<rparr>"

abbreviation matrix_3x3 :: array2 where
  "matrix_3x3 \<equiv>
     \<lparr>nrows = 3, ncols = 3, cells = [1, 1, 1,  1, 0, 1,  1, 1, 1], cls2 = NpNdarray\<rparr>"

abbreviation ones_2x2 :: array2 where
  "ones_2x2 \<equiv> \<lparr>nrows = 2, ncols = 2, cells = [1, 1,  1, 1], cls2 = NpNdarray\<rparr>"

section \<open>Properties\<close>

subsection \<open>Subscripts and windows\<close>

lemma clip_bound_int: "clip_bound (int b) d = min b d"
  by (simp add: clip_bound_def)

lemma slice_indices_inside:
  "r + k \<le> d \<Longrightarrow> slice_indices (int r) (int r + int k) d = [r ..< r + k]"
proof -
  assume h: "r + k \<le> d"
  have "int r + int k = int (r + k)" by simp
  then have "slice_indices (int r) (int r + int k) d = [min r d ..< min (r + k) d]"
    unfolding slice_indices_def by (simp only: clip_bound_int)
  with h show ?thesis by (simp add: min_def)
qed

lemma nth_concat_table:
  "i < length rs \<Longrightarrow> j < length cs \<Longrightarrow>
   concat (map (\<lambda>x. map (f x) cs) rs) ! (i * length cs + j) = f (rs ! i) (cs ! j)"
proof (induction rs arbitrary: i)
  case Nil
  then show ?case by simp
next
  case (Cons x rs)
  show ?case
  proof (cases i)
    case 0
    with Cons.prems show ?thesis by (simp add: nth_append)
  next
    case (Suc i')
    with Cons.prems have "i' < length rs" by simp
    from Cons.IH [OF this Cons.prems(2)] Suc show ?thesis
      by (simp add: nth_append)
  qed
qed

lemma cls2_window: "cls2 (window a k r c) = cls2 a"
  by (simp add: window_def getitem_slice_slice_def Let_def)

lemma window_shape:
  assumes "r + k \<le> nrows a" "c + k \<le> ncols a"
  shows "nrows (window a k r c) = k" "ncols (window a k r c) = k"
    "cells (window a k r c) = concat (map (\<lambda>i. map (\<lambda>j. at2 a i j) [c ..< c + k]) [r ..< r + k])"
  using assms by (simp_all add: window_def getitem_slice_slice_def slice_indices_inside)

lemma wf_window:
  assumes "r + k \<le> nrows a" "c + k \<le> ncols a"
  shows "wf_array2 (window a k r c)"
  using assms by (simp add: wf_array2_def window_shape length_concat comp_def sum_list_triv)

lemma at2_window:
  assumes "r + k \<le> nrows a" "c + k \<le> ncols a" "i < k" "j < k"
  shows "at2 (window a k r c) i j = at2 a (r + i) (c + j)"
proof -
  have "concat (map (\<lambda>x. map (at2 a x) [c ..< c + k]) [r ..< r + k]) ! (i * length [c ..< c + k] + j)
        = at2 a ([r ..< r + k] ! i) ([c ..< c + k] ! j)"
    by (rule nth_concat_table) (use assms in simp_all)
  with assms show ?thesis
    by (simp add: at2_def [of "window a k r c"] window_shape)
qed

lemma norm_index_first: "0 < d \<Longrightarrow> norm_index 0 d = Inr 0"
  by (simp add: norm_index_def)

lemma norm_index_last: "0 < d \<Longrightarrow> norm_index (- 1) d = Inr (d - 1)"
  by (simp add: norm_index_def Let_def nat_diff_distrib' int_ops)

lemma norm_index_empty: "norm_index i 0 = Inl IndexError"
  by (simp add: norm_index_def Let_def)

lemma slice_indices_interior: "slice_indices 1 (- 1) d = [1 ..< d - 1]"
proof (cases "d = 0")
  case True
  then show ?thesis by (simp add: slice_indices_def clip_bound_def)
next
  case False
  then have "nat (int d - 1) = d - 1" by simp
  with False show ?thesis by (simp add: slice_indices_def clip_bound_def max_def)
qed

lemma is_sub_square_cells:
  assumes "cls2 a = NpNdarray" "0 < nrows a" "0 < ncols a"
  shows "is_sub_square a =
     Inr ((\<forall>j<ncols a. at2 a 0 j = 1) \<and> (\<forall>j<ncols a. at2 a (nrows a - 1) j = 1) \<and>
          (\<forall>i\<in>{1 ..< nrows a - 1}. at2 a i 0 = 1) \<and>
          (\<forall>i\<in>{1 ..< nrows a - 1}. at2 a i (ncols a - 1) = 1))"
  using assms
  by (auto simp add: is_sub_square_def getitem_int_all_def getitem_slice_int_def
      norm_index_first norm_index_last slice_indices_interior concatenate_def Let_def
      list_all_iff)

lemma is_sub_square_matrix:
  assumes "cls2 a = NpMatrix" "0 < nrows a" "1 < ncols a"
  shows "is_sub_square a = Inl ValueError"
  using assms
  by (simp add: is_sub_square_def getitem_int_all_def getitem_slice_int_def
      norm_index_first norm_index_last slice_indices_interior concatenate_def Let_def)

lemma is_sub_square_matrix_single:
  assumes "cls2 a = NpMatrix" "nrows a = 1" "ncols a = 1"
  shows "is_sub_square a = Inr (at2 a 0 0 = 1)"
  using assms
  by (simp add: is_sub_square_def getitem_int_all_def getitem_slice_int_def
      norm_index_first norm_index_last slice_indices_interior concatenate_def Let_def)

lemma is_sub_square_empty: "nrows a = 0 \<Longrightarrow> is_sub_square a = Inl IndexError"
  by (simp add: is_sub_square_def getitem_int_all_def norm_index_empty)

lemma perimeter_ones_iff:
  "perimeter_ones a k r c \<longleftrightarrow>
     (\<forall>i\<in>{0..<k}. \<forall>j\<in>{0..<k}.
        (i = 0 \<or> i = k - 1 \<or> j = 0 \<or> j = k - 1) \<longrightarrow> at2 a (r + i) (c + j) = 1)"
  unfolding perimeter_ones_def set_upt ..

lemma perimeter_ones_cells:
  assumes "0 < k"
  shows "perimeter_ones a k r c \<longleftrightarrow>
     (\<forall>j<k. at2 a r (c + j) = 1) \<and> (\<forall>j<k. at2 a (r + (k - 1)) (c + j) = 1) \<and>
     (\<forall>i\<in>{1 ..< k - 1}. at2 a (r + i) c = 1) \<and>
     (\<forall>i\<in>{1 ..< k - 1}. at2 a (r + i) (c + (k - 1)) = 1)"
    (is "?L \<longleftrightarrow> ?R")
proof
  assume l: ?L
  have p: "at2 a (r + i) (c + j) = 1"
    if "i < k" "j < k" "i = 0 \<or> i = k - 1 \<or> j = 0 \<or> j = k - 1" for i j
  proof -
    from that have "i \<in> {0..<k}" "j \<in> {0..<k}" by simp_all
    with l that(3) show ?thesis unfolding perimeter_ones_iff by blast
  qed
  have top: "\<forall>j<k. at2 a r (c + j) = 1"
    using p [of 0] assms by simp
  have bot: "\<forall>j<k. at2 a (r + (k - 1)) (c + j) = 1"
    using p [of "k - 1"] assms by simp
  have left: "\<forall>i\<in>{1 ..< k - 1}. at2 a (r + i) c = 1"
    using p [of _ 0] assms by auto
  have right: "\<forall>i\<in>{1 ..< k - 1}. at2 a (r + i) (c + (k - 1)) = 1"
    using p [of _ "k - 1"] assms by auto
  from top bot left right show ?R by blast
next
  assume r: ?R
  show ?L
    unfolding perimeter_ones_iff
  proof (intro ballI impI)
    fix i j
    assume ij: "i \<in> {0..<k}" "j \<in> {0..<k}" and b: "i = 0 \<or> i = k - 1 \<or> j = 0 \<or> j = k - 1"
    show "at2 a (r + i) (c + j) = 1"
    proof (cases "i = 0 \<or> i = k - 1")
      case True
      with r ij show ?thesis by auto
    next
      case False
      with ij have "i \<in> {1 ..< k - 1}" by auto
      with r b False show ?thesis by auto
    qed
  qed
qed

lemma is_sub_square_window:
  assumes "0 < k" "r + k \<le> nrows a" "c + k \<le> ncols a" and plain: "cls2 a = NpNdarray"
  shows "is_sub_square (window a k r c) = Inr (perimeter_ones a k r c)"
proof -
  let ?w = "window a k r c"
  have s: "nrows ?w = k" "ncols ?w = k" using assms by (simp_all add: window_shape)
  have e: "at2 ?w i j = at2 a (r + i) (c + j)" if "i < k" "j < k" for i j
    using assms that by (simp add: at2_window)
  have top: "(\<forall>j<k. at2 ?w 0 j = 1) \<longleftrightarrow> (\<forall>j<k. at2 a r (c + j) = 1)"
    using e [of 0] assms(1) by simp
  have bot: "(\<forall>j<k. at2 ?w (k - 1) j = 1) \<longleftrightarrow> (\<forall>j<k. at2 a (r + (k - 1)) (c + j) = 1)"
    using e [of "k - 1"] assms(1) by simp
  have left: "(\<forall>i\<in>{1 ..< k - 1}. at2 ?w i 0 = 1) \<longleftrightarrow> (\<forall>i\<in>{1 ..< k - 1}. at2 a (r + i) c = 1)"
  proof -
    have "at2 ?w i 0 = at2 a (r + i) c" if "i \<in> {1 ..< k - 1}" for i
      using e [of i 0] that by auto
    then show ?thesis by simp
  qed
  have right: "(\<forall>i\<in>{1 ..< k - 1}. at2 ?w i (k - 1) = 1)
      \<longleftrightarrow> (\<forall>i\<in>{1 ..< k - 1}. at2 a (r + i) (c + (k - 1)) = 1)"
  proof -
    have "at2 ?w i (k - 1) = at2 a (r + i) (c + (k - 1))" if "i \<in> {1 ..< k - 1}" for i
      using e [of i "k - 1"] that by auto
    then show ?thesis by simp
  qed
  have "is_sub_square ?w =
     Inr ((\<forall>j<k. at2 ?w 0 j = 1) \<and> (\<forall>j<k. at2 ?w (k - 1) j = 1) \<and>
          (\<forall>i\<in>{1 ..< k - 1}. at2 ?w i 0 = 1) \<and>
          (\<forall>i\<in>{1 ..< k - 1}. at2 ?w i (k - 1) = 1))"
    using is_sub_square_cells [of ?w] assms(1) plain unfolding s by (simp add: cls2_window)
  also have "\<dots> = Inr (perimeter_ones a k r c)"
    unfolding top bot left right perimeter_ones_cells [OF assms(1)] ..
  finally show ?thesis .
qed

subsection \<open>The search as a scan of the placements\<close>

lemma qualifies_pair: "qualifies a (k, x) = perimeter_ones a k (fst x) (snd x)"
  by (cases x) simp

lemma find_append:
  "List.find P (xs @ ys) = (case List.find P xs of None \<Rightarrow> List.find P ys | Some x \<Rightarrow> Some x)"
  by (induction xs) simp_all

lemma find_map: "List.find P (map f xs) = map_option f (List.find (\<lambda>x. P (f x)) xs)"
  by (induction xs) simp_all

lemma concat_map_product:
  "concat (map (\<lambda>x. map (\<lambda>y. f x y) ys) xs) = map (\<lambda>(x, y). f x y) (List.product xs ys)"
  by (induction xs) simp_all

lemma set_anchors: "(r, c) \<in> set (anchors n k) \<longleftrightarrow> r \<le> n - k \<and> c \<le> n - k"
  by (auto simp: anchors_def)

lemma get_rolling_windows_anchors:
  assumes "nrows (matrix sq) = n" "1 \<le> k" "k \<le> n"
  shows "get_rolling_windows sq (int k) =
         Inr (map (\<lambda>(r, c). window (matrix sq) k r c) (anchors n k))"
proof -
  have n1: "nat (int n - int k + 1) = n - k + 1"
    using assms by (simp add: nat_diff_distrib' nat_add_distrib)
  have "get_rolling_windows sq (int k) =
      Inr (concat (map (\<lambda>r. map (\<lambda>c. window (matrix sq) k r c) [0 ..< n - k + 1])
             [0 ..< n - k + 1]))"
    using assms
    by (simp add: get_rolling_windows_def size_sq_def py_range_def Let_def n1 window_def
        comp_def del: upt_Suc)
  then show ?thesis
    by (simp only: concat_map_product anchors_def)
qed

lemma scan_windows_find:
  assumes "\<forall>x\<in>set xs. is_sub_square (f x) = Inr (P x)"
  shows "scan_windows (map f xs) sz = map_option (\<lambda>x. Inr (f x, sz)) (List.find P xs)"
  using assms by (induction xs) simp_all

lemma scan_anchors:
  assumes "nrows a = n" "ncols a = n" "1 \<le> k" "k \<le> n" and plain: "cls2 a = NpNdarray"
  shows "scan_windows (map (\<lambda>(r, c). window a k r c) (anchors n k)) sz =
         map_option (\<lambda>(r, c). Inr (window a k r c, sz))
           (List.find (\<lambda>(r, c). perimeter_ones a k r c) (anchors n k))"
proof -
  have "\<forall>x\<in>set (anchors n k).
          is_sub_square ((\<lambda>(r, c). window a k r c) x) = Inr ((\<lambda>(r, c). perimeter_ones a k r c) x)"
  proof
    fix x assume x: "x \<in> set (anchors n k)"
    obtain r c where rc: "x = (r, c)" by (cases x)
    with x have "r \<le> n - k" "c \<le> n - k" by (simp_all add: set_anchors)
    with assms have "r + k \<le> nrows a" "c + k \<le> ncols a" "0 < k" by simp_all
    then show "is_sub_square ((\<lambda>(r, c). window a k r c) x) = Inr ((\<lambda>(r, c). perimeter_ones a k r c) x)"
      by (simp add: rc is_sub_square_window plain)
  qed
  from scan_windows_find [OF this] show ?thesis
    by (simp add: case_prod_unfold)
qed

lemma search_sizes_find:
  assumes "nrows (matrix sq) = n" "ncols (matrix sq) = n" "\<forall>k\<in>set ks. 1 \<le> k \<and> k \<le> n"
    and plain: "cls2 (matrix sq) = NpNdarray"
  shows "search_sizes sq (map int ks) =
     (case List.find (qualifies (matrix sq))
             (concat (map (\<lambda>k. map (\<lambda>(r, c). (k, r, c)) (anchors n k)) ks)) of
        None \<Rightarrow> Inl SubSquareDNEError
      | Some (k, r, c) \<Rightarrow> Inr (window (matrix sq) k r c, int k))"
  using assms(3)
proof (induction ks)
  case Nil
  then show ?case by simp
next
  case (Cons k ks)
  then have k: "1 \<le> k" "k \<le> n" and ks: "\<forall>k\<in>set ks. 1 \<le> k \<and> k \<le> n" by simp_all
  let ?hit = "List.find (\<lambda>(r, c). perimeter_ones (matrix sq) k r c) (anchors n k)"
  let ?g = "\<lambda>k. map (\<lambda>(r, c). (k, r, c)) (anchors n k)"
  have step: "search_sizes sq (map int (k # ks)) =
      (case ?hit of
         None \<Rightarrow> search_sizes sq (map int ks)
       | Some (r, c) \<Rightarrow> Inr (window (matrix sq) k r c, int k))"
    by (simp add: get_rolling_windows_anchors [OF assms(1) k] scan_anchors [OF assms(1,2) k plain]
        split: option.split)
  have scan: "List.find (qualifies (matrix sq)) (concat (map ?g (k # ks))) =
      (case ?hit of
         None \<Rightarrow> List.find (qualifies (matrix sq)) (concat (map ?g ks))
       | Some (r, c) \<Rightarrow> Some (k, r, c))"
    by (simp add: find_append find_map qualifies_pair case_prod_unfold split: option.split)
  show ?case
    unfolding step scan using Cons.IH [OF ks]
    by (simp split: option.split prod.split)
qed

lemma py_range_down_int: "py_range_down (int n) = map int (rev [1 ..< Suc n])"
  by (simp add: py_range_down_def)

lemma find_largest_refines:
  assumes "nrows (matrix sq) = n" "ncols (matrix sq) = n" "cls2 (matrix sq) = NpNdarray"
  shows "find_largest_sub_square (PySquare sq) =
     (case List.find (qualifies (matrix sq)) (placements n) of
        None \<Rightarrow> Inl SubSquareDNEError
      | Some (k, r, c) \<Rightarrow> Inr (window (matrix sq) k r c, int k))"
proof -
  have "\<forall>k\<in>set (rev [1 ..< Suc n]). 1 \<le> k \<and> k \<le> n" by auto
  from search_sizes_find [OF assms(1,2) this assms(3)] show ?thesis
    by (simp add: find_largest_sub_square_def size_sq_def assms(1) py_range_down_int placements_def
        del: upt_Suc)
qed

subsection \<open>Validated squares\<close>

lemma Square_PyNdarray:
  "Square (PyNdarray a) =
     (if ndim a \<noteq> 2 \<or> shape a ! 0 \<noteq> shape a ! 1 \<or> \<not> list_all (\<lambda>x. x \<in> set [0, 1]) (flat a)
      then Inl ValueError
      else Inr \<lparr>matrix = \<lparr>nrows = shape a ! 0, ncols = shape a ! 1, cells = flat a, cls2 = cls a\<rparr>\<rparr>)"
  unfolding Square_def valid_matrix_def Let_def by simp

lemma shape_rank2:
  assumes "ndim a = 2"
  shows "shape a = [shape a ! 0, shape a ! 1]"
proof -
  from assms have l: "length (shape a) = 2" by (simp add: ndim_def)
  then obtain x xs where x: "shape a = x # xs" by (cases "shape a") simp_all
  with l have "length xs = 1" by simp
  then obtain y where "xs = [y]" by (cases xs) simp_all
  with x show ?thesis by simp
qed

lemma Square_ndarray:
  assumes "Square (PyNdarray a) = Inr sq"
  shows "shape a = [nrows (matrix sq), nrows (matrix sq)]"
    and "matrix sq = \<lparr>nrows = nrows (matrix sq), ncols = nrows (matrix sq), cells = flat a, cls2 = cls a\<rparr>"
    and "set (flat a) \<subseteq> {0, 1}"
proof -
  have c: "ndim a = 2 \<and> shape a ! 0 = shape a ! 1 \<and> list_all (\<lambda>x. x \<in> set [0, 1]) (flat a)"
    using assms unfolding Square_PyNdarray by (simp split: if_splits)
  with assms have "sq = \<lparr>matrix = \<lparr>nrows = shape a ! 0, ncols = shape a ! 1, cells = flat a, cls2 = cls a\<rparr>\<rparr>"
    unfolding Square_PyNdarray by simp
  then have m: "matrix sq = \<lparr>nrows = shape a ! 0, ncols = shape a ! 0, cells = flat a, cls2 = cls a\<rparr>"
    using c by simp
  then have n: "nrows (matrix sq) = shape a ! 0" by simp
  from shape_rank2 c have "shape a = [shape a ! 0, shape a ! 0]" by metis
  with n show "shape a = [nrows (matrix sq), nrows (matrix sq)]" by simp
  from m n show "matrix sq = \<lparr>nrows = nrows (matrix sq), ncols = nrows (matrix sq), cells = flat a, cls2 = cls a\<rparr>"
    by simp
  from c show "set (flat a) \<subseteq> {0, 1}" by (auto simp: list_all_iff)
qed

lemma Square_square:
  assumes "Square (PyNdarray a) = Inr sq"
  shows "ncols (matrix sq) = nrows (matrix sq)" "cells (matrix sq) = flat a"
proof -
  from Square_ndarray(2) [OF assms] show "ncols (matrix sq) = nrows (matrix sq)"
    by (metis array2.select_convs(2))
  from Square_ndarray(2) [OF assms] show "cells (matrix sq) = flat a"
    by (metis array2.select_convs(3))
qed

lemma Square_cls:
  assumes "Square (PyNdarray a) = Inr sq"
  shows "cls2 (matrix sq) = cls a"
  using Square_ndarray(2) [OF assms] by (metis array2.select_convs(4))

lemma Square_wf:
  assumes "wf_ndarray a" "Square (PyNdarray a) = Inr sq"
  shows "length (flat a) = nrows (matrix sq) * nrows (matrix sq)"
  using assms(1) Square_ndarray(1) [OF assms(2)] by (simp add: wf_ndarray_def)

subsection \<open>The scan order\<close>

lemma set_placements:
  "(k, r, c) \<in> set (placements n) \<longleftrightarrow> 1 \<le> k \<and> r + k \<le> n \<and> c + k \<le> n"
proof -
  have "(k, r, c) \<in> set (placements n) \<longleftrightarrow> k \<in> {1 ..< Suc n} \<and> (r, c) \<in> set (anchors n k)"
    unfolding placements_def by (auto simp del: upt_Suc)
  also have "\<dots> \<longleftrightarrow> 1 \<le> k \<and> r + k \<le> n \<and> c + k \<le> n"
    by (auto simp: set_anchors)
  finally show ?thesis .
qed

lemma sorted_wrt_concat_map:
  assumes "\<forall>k\<in>set ks. sorted_wrt R (f k)"
    and "sorted_wrt (\<lambda>k k'. \<forall>x\<in>set (f k). \<forall>y\<in>set (f k'). R x y) ks"
  shows "sorted_wrt R (concat (map f ks))"
  using assms by (induction ks) (auto simp: sorted_wrt_append)

lemma sorted_wrt_product:
  assumes "sorted_wrt (<) xs" "sorted_wrt (<) ys"
  shows "sorted_wrt row_major (List.product xs ys)"
  using assms(1)
proof (induction xs)
  case Nil
  then show ?case by simp
next
  case (Cons x xs)
  have "sorted_wrt (\<lambda>c c'. row_major (x, c) (x, c')) ys"
    using assms(2) by (simp add: row_major_def)
  moreover have "\<forall>p\<in>set (map (Pair x) ys). \<forall>q\<in>set (List.product xs ys). row_major p q"
    using Cons.prems by (auto simp: row_major_def)
  ultimately show ?case
    using Cons by (simp add: sorted_wrt_append sorted_wrt_map)
qed

lemma sorted_anchors: "sorted_wrt row_major (anchors n k)"
  unfolding anchors_def by (rule sorted_wrt_product) (rule sorted_wrt_upt)+

lemma scans_before_same_size: "scans_before (k, p) (k, q) = row_major p q"
  by (simp add: scans_before_def)

lemma scans_before_smaller: "k' < k \<Longrightarrow> scans_before (k, p) (k', q)"
  by (simp add: scans_before_def)

lemma sorted_placements: "sorted_wrt scans_before (placements n)"
  unfolding placements_def
proof (rule sorted_wrt_concat_map)
  show "\<forall>k\<in>set (rev [1..<Suc n]). sorted_wrt scans_before (map (\<lambda>(r, c). (k, r, c)) (anchors n k))"
    using sorted_anchors
    by (simp add: sorted_wrt_map case_prod_unfold scans_before_same_size del: upt_Suc)
next
  have "sorted_wrt (\<lambda>k' k. k' < k) [1 ..< Suc n]" by (rule sorted_wrt_upt)
  then have "sorted_wrt (\<lambda>k k'. k' < k) (rev [1 ..< Suc n])"
    by (simp only: sorted_wrt_rev)
  then show "sorted_wrt (\<lambda>k k'. \<forall>x\<in>set (map (\<lambda>(r, c). (k, r, c)) (anchors n k)).
        \<forall>y\<in>set (map (\<lambda>(r, c). (k', r, c)) (anchors n k')). scans_before x y) (rev [1..<Suc n])"
    by (rule sorted_wrt_mono_rel [rotated]) (auto simp: scans_before_smaller)
qed

lemma find_sorted_first:
  assumes "sorted_wrt R xs" "List.find P xs = Some x" "y \<in> set xs" "P y"
  shows "y = x \<or> R x y"
  using assms by (induction xs) (auto split: if_splits)

lemma find_Some_holds: "List.find P xs = Some x \<Longrightarrow> P x \<and> x \<in> set xs"
  by (induction xs) (auto split: if_splits)

lemma nth_map_product:
  assumes "r < length xs" "c < length ys"
  shows "map f (List.product xs ys) ! (r * length ys + c) = f (xs ! r, ys ! c)"
proof -
  have "r * length ys + c < r * length ys + length ys" using assms by simp
  also have "\<dots> = Suc r * length ys" by simp
  also have "\<dots> \<le> length xs * length ys"
    using assms(1) by (intro mult_le_mono1) simp
  finally have b: "r * length ys + c < length xs * length ys" .
  then have "map f (List.product xs ys) ! (r * length ys + c) = f (List.product xs ys ! (r * length ys + c))"
    by (simp add: length_product)
  also have "List.product xs ys ! (r * length ys + c) = (xs ! r, ys ! c)"
  proof -
    have "(r * length ys + c) div length ys = r" "(r * length ys + c) mod length ys = c"
      using assms(2) by (cases "length ys = 0"; simp)+
    with b show ?thesis by (simp add: product_nth)
  qed
  finally show ?thesis .
qed

subsection \<open>The test arrays as squares\<close>

lemma Square_grid_0_1_1:
  "Square (PyNdarray grid_0_1_1) =
     Inr \<lparr>matrix = matrix_0_1_1\<rparr>"
  by (simp add: Square_PyNdarray grid_0_1_1_def ndim_def)

lemma Square_grid_zeros:
  "Square (PyNdarray grid_zeros) =
     Inr \<lparr>matrix = matrix_zeros\<rparr>"
  by (simp add: Square_PyNdarray grid_zeros_def ndim_def)

lemma Square_square_3x3:
  "Square (PyNdarray square_3x3) =
     Inr \<lparr>matrix = matrix_3x3\<rparr>"
  by (simp add: Square_PyNdarray square_3x3_def ndim_def)

lemma find_largest_grid_0_1_1:
  "find_largest_sub_square
     (PySquare \<lparr>matrix = matrix_0_1_1\<rparr>) =
   Inr (ones_2x2, 2)"
  by code_simp

lemma find_largest_grid_zeros:
  "find_largest_sub_square
     (PySquare \<lparr>matrix = matrix_zeros\<rparr>) =
   Inl SubSquareDNEError"
  by code_simp

lemma window_grid_0_1_1:
  "window matrix_0_1_1 2 0 1 =
   ones_2x2"
  by code_simp

lemma scan_grid_0_1_1:
  "List.find (qualifies matrix_0_1_1)
     (placements 3) = Some (2, 0, 1)"
  by code_simp

lemma perimeter_grid_0_1_1:
  "perimeter_ones matrix_0_1_1 2 0 1"
  "perimeter_ones matrix_0_1_1 2 1 1"
  by code_simp+

lemma wf_grids: "wf_ndarray grid_0_1_1" "wf_ndarray grid_zeros"
  by (simp_all add: wf_ndarray_def grid_0_1_1_def grid_zeros_def)

lemma placements_3:
  "placements 3 =
     [(3, 0, 0),
      (2, 0, 0), (2, 0, 1), (2, 1, 0), (2, 1, 1),
      (1, 0, 0), (1, 0, 1), (1, 0, 2), (1, 1, 0), (1, 1, 1), (1, 1, 2), (1, 2, 0), (1, 2, 1), (1, 2, 2)]"
  by code_simp

subsection \<open>Hits and misses of the scan\<close>

lemma Square_side:
  assumes "Square (PyNdarray a) = Inr sq" "size_sq sq = int n"
  shows "nrows (matrix sq) = n" "ncols (matrix sq) = n"
proof -
  from assms(2) show n: "nrows (matrix sq) = n" by (simp add: size_sq_def)
  with Square_square(1) [OF assms(1)] show "ncols (matrix sq) = n" by simp
qed

lemma find_largest_hit:
  assumes "nrows (matrix sq) = n" "ncols (matrix sq) = n" "cls2 (matrix sq) = NpNdarray"
    and "List.find (qualifies (matrix sq)) (placements n) = Some (k, r, c)"
  shows "find_largest_sub_square (PySquare sq) = Inr (window (matrix sq) k r c, int k)"
  using find_largest_refines [OF assms(1-3)] assms(4) by simp

lemma find_largest_miss:
  assumes "nrows (matrix sq) = n" "ncols (matrix sq) = n" "cls2 (matrix sq) = NpNdarray"
    and "List.find (qualifies (matrix sq)) (placements n) = None"
  shows "find_largest_sub_square (PySquare sq) = Inl SubSquareDNEError"
  using find_largest_refines [OF assms(1-3)] assms(4) by simp

lemma scans_before_triple:
  "scans_before (k, r, c) (k', r', c') \<longleftrightarrow> k' < k \<or> (k' = k \<and> (r < r' \<or> (r = r' \<and> c < c')))"
  by (simp add: scans_before_def row_major_def)

lemma first_hit_least:
  assumes "List.find (qualifies m) (placements n) = Some (k, r, c)"
    and "1 \<le> k'" "r' + k' \<le> n" "c' + k' \<le> n" "perimeter_ones m k' r' c'"
  shows "k' \<le> k \<and> (k' = k \<longrightarrow> r < r' \<or> (r = r' \<and> c \<le> c'))"
proof -
  from assms(2-4) have "(k', r', c') \<in> set (placements n)" by (simp add: set_placements)
  moreover from assms(5) have "qualifies m (k', r', c')" by simp
  ultimately have "(k', r', c') = (k, r, c) \<or> scans_before (k, r, c) (k', r', c')"
    using find_sorted_first [OF sorted_placements assms(1)] by blast
  then show ?thesis by (auto simp: scans_before_triple)
qed

lemma some_hit:
  assumes "1 \<le> k'" "r' + k' \<le> n" "c' + k' \<le> n" "perimeter_ones m k' r' c'"
  obtains k r c where "List.find (qualifies m) (placements n) = Some (k, r, c)"
proof -
  from assms have "(k', r', c') \<in> set (placements n) \<and> qualifies m (k', r', c')"
    by (simp add: set_placements)
  then have "List.find (qualifies m) (placements n) \<noteq> None"
    unfolding find_None_iff by blast
  then obtain p where "List.find (qualifies m) (placements n) = Some p" by blast
  then show ?thesis using that by (cases p) auto
qed

lemma hit_in_grid:
  assumes "List.find (qualifies m) (placements n) = Some (k, r, c)"
  shows "1 \<le> k" "r + k \<le> n" "c + k \<le> n" "perimeter_ones m k r c"
proof -
  from find_Some_holds [OF assms]
  have "qualifies m (k, r, c)" "(k, r, c) \<in> set (placements n)" by simp_all
  then show "1 \<le> k" "r + k \<le> n" "c + k \<le> n" "perimeter_ones m k r c"
    by (simp_all add: set_placements)
qed

lemma no_hit:
  assumes "List.find (qualifies m) (placements n) = None"
  shows "\<not> (\<exists>k r c. 1 \<le> k \<and> r + k \<le> n \<and> c + k \<le> n \<and> perimeter_ones m k r c)"
proof
  assume "\<exists>k r c. 1 \<le> k \<and> r + k \<le> n \<and> c + k \<le> n \<and> perimeter_ones m k r c"
  then obtain k r c where "1 \<le> k" "r + k \<le> n" "c + k \<le> n" "perimeter_ones m k r c" by blast
  then obtain k' r' c' where "List.find (qualifies m) (placements n) = Some (k', r', c')"
    by (rule some_hit)
  with assms show False by simp
qed

lemma perimeter_ones_single: "perimeter_ones m 1 r c \<longleftrightarrow> at2 m r c = 1"
  by (simp add: perimeter_ones_iff)

lemma perimeter_ones_anchor: "1 \<le> k \<Longrightarrow> perimeter_ones m k r c \<Longrightarrow> at2 m r c = 1"
  unfolding perimeter_ones_iff by force

lemma some_placement_iff_some_cell:
  "(\<exists>k r c. 1 \<le> k \<and> r + k \<le> n \<and> c + k \<le> n \<and> perimeter_ones m k r c)
   \<longleftrightarrow> (\<exists>i<n. \<exists>j<n. at2 m i j = 1)"
proof
  assume "\<exists>k r c. 1 \<le> k \<and> r + k \<le> n \<and> c + k \<le> n \<and> perimeter_ones m k r c"
  then obtain k r c where h: "1 \<le> k" "r + k \<le> n" "c + k \<le> n" "perimeter_ones m k r c" by blast
  then have "at2 m r c = 1" by (simp add: perimeter_ones_anchor)
  moreover from h have "r < n" "c < n" by simp_all
  ultimately show "\<exists>i<n. \<exists>j<n. at2 m i j = 1" by blast
next
  assume "\<exists>i<n. \<exists>j<n. at2 m i j = 1"
  then obtain i j where "i < n" "j < n" "at2 m i j = 1" by blast
  then have "1 \<le> (1::nat) \<and> i + 1 \<le> n \<and> j + 1 \<le> n \<and> perimeter_ones m 1 i j"
    unfolding perimeter_ones_single by simp
  then show "\<exists>k r c. 1 \<le> k \<and> r + k \<le> n \<and> c + k \<le> n \<and> perimeter_ones m k r c" by blast
qed

lemma cell_index_bound:
  assumes "i < n" "j < (n::nat)"
  shows "i * n + j < n * n"
proof -
  have "i * n + j < i * n + n" using assms(2) by simp
  also have "\<dots> = Suc i * n" by simp
  also have "\<dots> \<le> n * n" using assms(1) by (intro mult_le_mono1) simp
  finally show ?thesis .
qed

lemma some_cell_iff_in_cells:
  assumes "wf_array2 m" "nrows m = n" "ncols m = n"
  shows "(\<exists>i<n. \<exists>j<n. at2 m i j = x) \<longleftrightarrow> x \<in> set (cells m)"
proof
  assume "\<exists>i<n. \<exists>j<n. at2 m i j = x"
  then obtain i j where ij: "i < n" "j < n" "at2 m i j = x" by blast
  from cell_index_bound [OF ij(1,2)] assms have "i * ncols m + j < length (cells m)"
    by (simp add: wf_array2_def)
  then have "cells m ! (i * ncols m + j) \<in> set (cells m)" by (rule nth_mem)
  with ij(3) show "x \<in> set (cells m)" by (simp add: at2_def)
next
  assume "x \<in> set (cells m)"
  then obtain idx where idx: "idx < length (cells m)" "cells m ! idx = x"
    by (auto simp: in_set_conv_nth)
  with assms have b: "idx < n * n" by (simp add: wf_array2_def)
  then have n0: "0 < n" by (cases n) simp_all
  from b n0 have "idx div n < n" by (simp add: less_mult_imp_div_less)
  moreover from n0 have "idx mod n < n" by simp
  moreover have "at2 m (idx div n) (idx mod n) = x"
    using idx(2) assms(3) by (simp add: at2_def)
  ultimately show "\<exists>i<n. \<exists>j<n. at2 m i j = x" by blast
qed

subsection \<open>Base-class arrays\<close>

text \<open>
  On a grid built from a base-class array the search is the scan of the placements: it
  returns the first placement, in scan order, whose perimeter is all ones.
\<close>

lemma plain_is_sub_square_perimeter:
  assumes "cls2 a = NpNdarray" "nrows a = m" "ncols a = m" "1 \<le> m"
  shows "\<exists>b. is_sub_square a = Inr b \<and>
     (m = 1 \<longrightarrow> (b \<longleftrightarrow> at2 a 0 0 = 1)) \<and>
     (2 \<le> m \<longrightarrow>
        (b \<longleftrightarrow> (\<forall>i<m. at2 a 0 i = 1 \<and> at2 a (m - 1) i = 1 \<and>
                         at2 a i 0 = 1 \<and> at2 a i (m - 1) = 1)))"
proof -
  let ?b = "(\<forall>j<m. at2 a 0 j = 1) \<and> (\<forall>j<m. at2 a (m - 1) j = 1) \<and>
            (\<forall>i\<in>{1 ..< m - 1}. at2 a i 0 = 1) \<and> (\<forall>i\<in>{1 ..< m - 1}. at2 a i (m - 1) = 1)"
  have r: "is_sub_square a = Inr ?b"
    using is_sub_square_cells [of a] assms by simp
  have one: "?b \<longleftrightarrow> at2 a 0 0 = 1" if "m = 1"
    using that by simp
  have two: "?b \<longleftrightarrow> (\<forall>i<m. at2 a 0 i = 1 \<and> at2 a (m - 1) i = 1 \<and>
                         at2 a i 0 = 1 \<and> at2 a i (m - 1) = 1)" if m: "2 \<le> m"
  proof
    assume b: ?b
    show "\<forall>i<m. at2 a 0 i = 1 \<and> at2 a (m - 1) i = 1 \<and> at2 a i 0 = 1 \<and> at2 a i (m - 1) = 1"
    proof (intro allI impI)
      fix i assume i: "i < m"
      have "at2 a i 0 = 1 \<and> at2 a i (m - 1) = 1"
      proof (cases "i = 0 \<or> i = m - 1")
        case True
        with b m show ?thesis by auto
      next
        case False
        with i have "i \<in> {1 ..< m - 1}" by auto
        with b show ?thesis by blast
      qed
      with b i show "at2 a 0 i = 1 \<and> at2 a (m - 1) i = 1 \<and> at2 a i 0 = 1 \<and> at2 a i (m - 1) = 1"
        by blast
    qed
  next
    assume "\<forall>i<m. at2 a 0 i = 1 \<and> at2 a (m - 1) i = 1 \<and> at2 a i 0 = 1 \<and> at2 a i (m - 1) = 1"
    then show ?b by auto
  qed
  show ?thesis
  proof (intro exI conjI impI)
    show "is_sub_square a = Inr ?b" by (rule r)
  next
    assume "m = 1"
    then show "?b \<longleftrightarrow> at2 a 0 0 = 1" by (rule one)
  next
    assume "2 \<le> m"
    then show "?b \<longleftrightarrow> (\<forall>i<m. at2 a 0 i = 1 \<and> at2 a (m - 1) i = 1 \<and>
                         at2 a i 0 = 1 \<and> at2 a i (m - 1) = 1)" by (rule two)
  qed
qed

lemma plain_find_largest_first:
  assumes "cls a = NpNdarray" "Square (PyNdarray a) = Inr sq" "size_sq sq = int n"
    and "1 \<le> k0" "r0 + k0 \<le> n" "c0 + k0 \<le> n" "perimeter_ones (matrix sq) k0 r0 c0"
  shows "\<exists>k r c.
         List.find (qualifies (matrix sq)) (placements n) = Some (k, r, c) \<and>
         find_largest_sub_square (PySquare sq) = Inr (window (matrix sq) k r c, int k) \<and>
         1 \<le> k \<and> r + k \<le> n \<and> c + k \<le> n \<and> perimeter_ones (matrix sq) k r c \<and>
         (\<forall>k' r' c'.
            1 \<le> k' \<and> r' + k' \<le> n \<and> c' + k' \<le> n \<and> perimeter_ones (matrix sq) k' r' c' \<longrightarrow>
            k' \<le> k \<and> (k' = k \<longrightarrow> r < r' \<or> (r = r' \<and> c \<le> c')))"
proof -
  let ?m = "matrix sq"
  note side = Square_side [OF assms(2,3)]
  from assms(1) Square_cls [OF assms(2)] have plain: "cls2 ?m = NpNdarray" by simp
  from assms(4-7) obtain k r c where f: "List.find (qualifies ?m) (placements n) = Some (k, r, c)"
    by (rule some_hit)
  have "find_largest_sub_square (PySquare sq) = Inr (window ?m k r c, int k)"
    using side plain f by (rule find_largest_hit)
  moreover note hit_in_grid [OF f]
  moreover have "\<forall>k' r' c'.
      1 \<le> k' \<and> r' + k' \<le> n \<and> c' + k' \<le> n \<and> perimeter_ones ?m k' r' c' \<longrightarrow>
      k' \<le> k \<and> (k' = k \<longrightarrow> r < r' \<or> (r = r' \<and> c \<le> c'))"
    using first_hit_least [OF f] by blast
  ultimately show ?thesis
    using f by (intro exI [of _ k] exI [of _ r] exI [of _ c]) (intro conjI)
qed

lemma plain_find_largest_not_found_iff:
  assumes "cls a = NpNdarray" "wf_ndarray a" "Square (PyNdarray a) = Inr sq" "size_sq sq = int n"
  shows "(find_largest_sub_square (PySquare sq) = Inl SubSquareDNEError) \<longleftrightarrow>
           \<not> (\<exists>k r c. 1 \<le> k \<and> r + k \<le> n \<and> c + k \<le> n \<and> perimeter_ones (matrix sq) k r c)"
    and "(\<exists>k r c. 1 \<le> k \<and> r + k \<le> n \<and> c + k \<le> n \<and> perimeter_ones (matrix sq) k r c) \<longleftrightarrow>
           1 \<in> set (flat a)"
    and "find_largest_sub_square (PySquare sq) = Inl SubSquareDNEError \<or>
           (\<exists>w s. find_largest_sub_square (PySquare sq) = Inr (w, s))"
proof -
  let ?m = "matrix sq"
  let ?some = "\<exists>k r c. 1 \<le> k \<and> r + k \<le> n \<and> c + k \<le> n \<and> perimeter_ones ?m k r c"
  note side = Square_side [OF assms(3,4)]
  from assms(1) Square_cls [OF assms(3)] have plain: "cls2 ?m = NpNdarray" by simp
  note cells = Square_square(2) [OF assms(3)]
  from Square_wf [OF assms(2,3)] cells side have wf: "wf_array2 ?m"
    by (simp add: wf_array2_def)
  show "find_largest_sub_square (PySquare sq) = Inl SubSquareDNEError \<longleftrightarrow> \<not> ?some"
  proof (cases "List.find (qualifies ?m) (placements n)")
    case None
    with side plain have "find_largest_sub_square (PySquare sq) = Inl SubSquareDNEError"
      by (rule find_largest_miss)
    with no_hit [OF None] show ?thesis by simp
  next
    case (Some p)
    obtain k r c where p: "p = (k, r, c)" by (cases p)
    with Some have f: "List.find (qualifies ?m) (placements n) = Some (k, r, c)" by simp
    with side plain have "find_largest_sub_square (PySquare sq) = Inr (window ?m k r c, int k)"
      by (rule find_largest_hit)
    moreover from hit_in_grid [OF f] have ?some by blast
    ultimately show ?thesis by simp
  qed
  show "find_largest_sub_square (PySquare sq) = Inl SubSquareDNEError \<or>
       (\<exists>w s. find_largest_sub_square (PySquare sq) = Inr (w, s))"
    using find_largest_refines [OF side plain]
    by (cases "List.find (qualifies ?m) (placements n)") auto
  have "(\<exists>i<n. \<exists>j<n. at2 ?m i j = 1) \<longleftrightarrow> 1 \<in> set (flat a)"
    using some_cell_iff_in_cells [OF wf side, of 1] cells by simp
  with some_placement_iff_some_cell [of n ?m] show "?some \<longleftrightarrow> 1 \<in> set (flat a)"
    by simp
qed

lemma plain_find_largest_at_least:
  assumes "cls a = NpNdarray" "Square (PyNdarray a) = Inr sq" "size_sq sq = int n"
    and "1 \<le> k" "r + k \<le> n" "c + k \<le> n" "perimeter_ones (matrix sq) k r c"
  shows "\<exists>w s. find_largest_sub_square (PySquare sq) = Inr (w, s) \<and> int k \<le> s"
proof -
  let ?m = "matrix sq"
  note side = Square_side [OF assms(2,3)]
  from assms(1) Square_cls [OF assms(2)] have plain: "cls2 ?m = NpNdarray" by simp
  from assms(4-7) obtain k' r' c' where f: "List.find (qualifies ?m) (placements n) = Some (k', r', c')"
    by (rule some_hit)
  from side plain f have "find_largest_sub_square (PySquare sq) = Inr (window ?m k' r' c', int k')"
    by (rule find_largest_hit)
  moreover from first_hit_least [OF f assms(4-7)] have "int k \<le> int k'" by simp
  ultimately show ?thesis by blast
qed

subsection \<open>Matrix-class arrays\<close>

text \<open>
  On an \<^verbatim>\<open>np.matrix\<close> with at least one row and two columns the four subscripts of
  \<^verbatim>\<open>_is_sub_square\<close> have shapes \<open>(1, ncols)\<close> and \<open>(len, 1)\<close>, and
  \<^verbatim>\<open>np.concatenate\<close> raises \<^verbatim>\<open>ValueError\<close>. A grid built from an \<^verbatim>\<open>np.matrix\<close> of side
  2 or more therefore makes the search raise at its first window.
\<close>

lemma anchors_full: "anchors n n = [(0, 0)]"
  by (simp add: anchors_def)

lemma find_largest_np_matrix:
  assumes "nrows (matrix sq) = n" "ncols (matrix sq) = n" "cls2 (matrix sq) = NpMatrix" "2 \<le> n"
  shows "find_largest_sub_square (PySquare sq) = Inl ValueError"
proof -
  let ?m = "matrix sq"
  from assms(4) have n1: "1 \<le> n" by simp
  have w: "get_rolling_windows sq (int n) = Inr [window ?m n 0 0]"
    using get_rolling_windows_anchors [OF assms(1) n1 order_refl] by (simp add: anchors_full)
  have "nrows (window ?m n 0 0) = n" "ncols (window ?m n 0 0) = n"
    using assms(1,2) by (simp_all add: window_shape)
  with assms(3,4) have "is_sub_square (window ?m n 0 0) = Inl ValueError"
    by (intro is_sub_square_matrix) (simp_all add: cls2_window)
  then have s: "scan_windows [window ?m n 0 0] (int n) = Some (Inl ValueError)" by simp
  from assms(4) have "rev [1 ..< Suc n] = n # rev [1 ..< n]" by simp
  then have "py_range_down (int n) = int n # map int (rev [1 ..< n])"
    by (simp add: py_range_down_int del: upt_Suc)
  with w s show ?thesis
    by (simp add: find_largest_sub_square_def size_sq_def assms(1))
qed

lemma find_largest_plain_4x4:
  "find_largest_sub_square (PySquare \<lparr>matrix = matrix_4x4\<rparr>) = Inr (matrix_4x4, 4)"
  by code_simp

lemma Square_np_matrices:
  "Square (PyNdarray np_matrix_0_1_1) = Inr \<lparr>matrix = matrix_0_1_1\<lparr>cls2 := NpMatrix\<rparr>\<rparr>"
  "Square (PyNdarray np_matrix_zeros) = Inr \<lparr>matrix = matrix_zeros\<lparr>cls2 := NpMatrix\<rparr>\<rparr>"
  "Square (PyNdarray np_matrix_4x4) = Inr \<lparr>matrix = matrix_4x4\<lparr>cls2 := NpMatrix\<rparr>\<rparr>"
  by (simp_all add: Square_PyNdarray np_matrix_0_1_1_def np_matrix_zeros_def np_matrix_4x4_def
      ndim_def)

section \<open>The claims\<close>

text \<open>
  In the statements below a valid grid is a well-formed array \<open>a\<close> that the constructor
  accepts: \<open>wf_ndarray a\<close> and \<open>Square (PyNdarray a) = Inr sq\<close>.
\<close>

text \<open>
  Claim C1. The claim asks, of every valid grid with a qualifying placement, that
  \<^verbatim>\<open>find_largest_sub_square\<close> return the first qualifying placement of the scan. The
  constructor accepts \<^verbatim>\<open>np.matrix([[0,1,1],[0,1,1],[1,1,1]])\<close>, and on that grid the
  search raises \<^verbatim>\<open>ValueError\<close> out of \<^verbatim>\<open>np.concatenate\<close>; on the base-class array with
  the same cells it returns \<open>[[1,1],[1,1]]\<close> and size 2, as the claim says.
\<close>

theorem find_largest_np_matrix_0_1_1_raises:
  "Square (PyNdarray np_matrix_0_1_1) = Inr \<lparr>matrix = matrix_0_1_1\<lparr>cls2 := NpMatrix\<rparr>\<rparr> \<and>
   find_largest_sub_square (PySquare \<lparr>matrix = matrix_0_1_1\<lparr>cls2 := NpMatrix\<rparr>\<rparr>) =
     Inl ValueError \<and>
   Square (PyNdarray grid_0_1_1) = Inr \<lparr>matrix = matrix_0_1_1\<rparr> \<and>
   find_largest_sub_square (PySquare \<lparr>matrix = matrix_0_1_1\<rparr>) = Inr (ones_2x2, 2) \<and>
   List.find (qualifies matrix_0_1_1) (placements 3) = Some (2, 0, 1) \<and>
   window matrix_0_1_1 2 0 1 = ones_2x2"
proof -
  have "find_largest_sub_square (PySquare \<lparr>matrix = matrix_0_1_1\<lparr>cls2 := NpMatrix\<rparr>\<rparr>) =
     Inl ValueError"
    by (rule find_largest_np_matrix [where n = 3]) simp_all
  with Square_np_matrices(1) Square_grid_0_1_1 find_largest_grid_0_1_1 scan_grid_0_1_1
    window_grid_0_1_1
  show ?thesis by (intro conjI)
qed

text \<open>
  Claim C2. The claim asks, of every square matrix of side \<open>m \<ge> 1\<close>, that
  \<^verbatim>\<open>_is_sub_square\<close> return whether its border is all ones. On
  \<^verbatim>\<open>np.matrix([[1,1],[1,1]])\<close> it raises \<^verbatim>\<open>ValueError\<close> out of \<^verbatim>\<open>np.concatenate\<close>; on
  the base-class array with the same cells it returns true, as the claim says.
\<close>

theorem is_sub_square_np_matrix_raises:
  "is_sub_square (ones_2x2\<lparr>cls2 := NpMatrix\<rparr>) = Inl ValueError \<and>
   is_sub_square ones_2x2 = Inr True"
proof -
  have "is_sub_square (ones_2x2\<lparr>cls2 := NpMatrix\<rparr>) = Inl ValueError"
    by (rule is_sub_square_matrix) simp_all
  moreover have "is_sub_square ones_2x2 = Inr True"
    by code_simp
  ultimately show ?thesis by (rule conjI)
qed

text \<open>
  Claim C3. For a valid grid of side \<open>n\<close> and a size \<open>k\<close> with \<open>1 \<le> k \<le> n\<close>,
  \<^verbatim>\<open>_get_rolling_windows\<close> yields exactly \<open>(n - k + 1)\<^sup>2\<close> windows; the window at
  position \<open>r * (n - k + 1) + c\<close> of the sequence, for \<open>r, c \<le> n - k\<close>, is the block
  anchored at \<open>(r, c)\<close>: it has \<open>k\<close> rows and \<open>k\<close> columns and its cell \<open>(i, j)\<close> is the
  grid's cell \<open>(r + i, c + j)\<close>. The positions are the row-major order of the anchors.
\<close>

theorem get_rolling_windows_enumerates:
  assumes "wf_ndarray a" "Square (PyNdarray a) = Inr sq" "size_sq sq = int n" "1 \<le> k" "k \<le> n"
  shows "\<exists>ws. get_rolling_windows sq (int k) = Inr ws \<and>
      length ws = (n - k + 1)\<^sup>2 \<and>
      (\<forall>r\<in>{0 .. n - k}. \<forall>c\<in>{0 .. n - k}.
         ws ! (r * (n - k + 1) + c) = window (matrix sq) k r c \<and>
         nrows (window (matrix sq) k r c) = k \<and>
         ncols (window (matrix sq) k r c) = k \<and>
         (\<forall>i<k. \<forall>j<k. at2 (window (matrix sq) k r c) i j = at2 (matrix sq) (r + i) (c + j)))"
proof -
  let ?m = "matrix sq"
  let ?ws = "map (\<lambda>(r, c). window ?m k r c) (anchors n k)"
  from assms(3) have n: "nrows ?m = n" by (simp add: size_sq_def)
  with Square_square(1) [OF assms(2)] have nc: "ncols ?m = n" by simp
  have g: "get_rolling_windows sq (int k) = Inr ?ws"
    using get_rolling_windows_anchors [OF n assms(4,5)] .
  have l: "length ?ws = (n - k + 1)\<^sup>2"
    by (simp add: anchors_def length_product power2_eq_square)
  have e: "?ws ! (r * (n - k + 1) + c) = window ?m k r c \<and>
         nrows (window ?m k r c) = k \<and> ncols (window ?m k r c) = k \<and>
         (\<forall>i<k. \<forall>j<k. at2 (window ?m k r c) i j = at2 ?m (r + i) (c + j))"
    if "r \<in> {0 .. n - k}" "c \<in> {0 .. n - k}" for r c
  proof -
    from that assms(5) have rc: "r + k \<le> nrows ?m" "c + k \<le> ncols ?m"
      using n nc by simp_all
    have "?ws ! (r * length [0 ..< n - k + 1] + c) =
        (\<lambda>(r, c). window ?m k r c) ([0 ..< n - k + 1] ! r, [0 ..< n - k + 1] ! c)"
      unfolding anchors_def by (rule nth_map_product) (use that in \<open>simp_all del: upt_Suc\<close>)
    with that have "?ws ! (r * (n - k + 1) + c) = window ?m k r c"
      by (simp del: upt_Suc)
    with rc show ?thesis
      by (simp add: window_shape at2_window)
  qed
  have "\<forall>r\<in>{0 .. n - k}. \<forall>c\<in>{0 .. n - k}.
         ?ws ! (r * (n - k + 1) + c) = window ?m k r c \<and>
         nrows (window ?m k r c) = k \<and> ncols (window ?m k r c) = k \<and>
         (\<forall>i<k. \<forall>j<k. at2 (window ?m k r c) i j = at2 ?m (r + i) (c + j))"
    by (intro ballI) (rule e)
  with g l show ?thesis by (intro exI [of _ ?ws]) (intro conjI)
qed

theorem get_rolling_windows_enumerates_witness:
  "wf_ndarray square_3x3 \<and>
   (\<exists>ws. get_rolling_windows \<lparr>matrix = matrix_3x3\<rparr> 2
            = Inr ws \<and>
      length ws = 4 \<and>
      ws ! 0 = \<lparr>nrows = 2, ncols = 2, cells = [1, 1,  1, 0], cls2 = NpNdarray\<rparr> \<and>
      ws ! 1 = \<lparr>nrows = 2, ncols = 2, cells = [1, 1,  0, 1], cls2 = NpNdarray\<rparr> \<and>
      ws ! 2 = \<lparr>nrows = 2, ncols = 2, cells = [1, 0,  1, 1], cls2 = NpNdarray\<rparr> \<and>
      ws ! 3 = \<lparr>nrows = 2, ncols = 2, cells = [0, 1,  1, 1], cls2 = NpNdarray\<rparr>)"
proof -
  let ?m = "matrix_3x3"
  let ?sq = "\<lparr>matrix = ?m\<rparr>"
  have wf: "wf_ndarray square_3x3"
    by (simp add: wf_ndarray_def square_3x3_def)
  have sz: "size_sq ?sq = int 3" by (simp add: size_sq_def)
  have w: "window ?m 2 0 0 = \<lparr>nrows = 2, ncols = 2, cells = [1, 1,  1, 0], cls2 = NpNdarray\<rparr>"
    "window ?m 2 0 1 = \<lparr>nrows = 2, ncols = 2, cells = [1, 1,  0, 1], cls2 = NpNdarray\<rparr>"
    "window ?m 2 1 0 = \<lparr>nrows = 2, ncols = 2, cells = [1, 0,  1, 1], cls2 = NpNdarray\<rparr>"
    "window ?m 2 1 1 = \<lparr>nrows = 2, ncols = 2, cells = [0, 1,  1, 1], cls2 = NpNdarray\<rparr>"
    by code_simp+
  from get_rolling_windows_enumerates [OF wf Square_square_3x3 sz, of 2]
  obtain ws where g: "get_rolling_windows ?sq (int 2) = Inr ws"
    and l: "length ws = (3 - 2 + 1)\<^sup>2"
    and e: "\<forall>r\<in>{0 .. 3 - 2}. \<forall>c\<in>{0 .. 3 - 2}.
         ws ! (r * (3 - 2 + 1) + c) = window ?m 2 r c \<and>
         nrows (window ?m 2 r c) = 2 \<and> ncols (window ?m 2 r c) = 2 \<and>
         (\<forall>i<2. \<forall>j<2. at2 (window ?m 2 r c) i j = at2 ?m (r + i) (c + j))"
    by auto
  have p: "ws ! (r * (3 - 2 + 1) + c) = window ?m 2 r c" if "r \<le> 1" "c \<le> 1" for r c
  proof -
    from that have "r \<in> {0 .. 3 - 2}" "c \<in> {0 .. 3 - 2}" by simp_all
    with e show ?thesis by blast
  qed
  have i: "0 * (3 - 2 + 1) + 0 = (0::nat)" "0 * (3 - 2 + 1) + 1 = (1::nat)"
    "1 * (3 - 2 + 1) + 0 = (2::nat)" "1 * (3 - 2 + 1) + 1 = (3::nat)"
    by simp_all
  have "ws ! (0 * (3 - 2 + 1) + 0) = window ?m 2 0 0" by (rule p) simp_all
  then have w0: "ws ! 0 = \<lparr>nrows = 2, ncols = 2, cells = [1, 1,  1, 0], cls2 = NpNdarray\<rparr>"
    by (simp only: i w)
  have "ws ! (0 * (3 - 2 + 1) + 1) = window ?m 2 0 1" by (rule p) simp_all
  then have w1: "ws ! 1 = \<lparr>nrows = 2, ncols = 2, cells = [1, 1,  0, 1], cls2 = NpNdarray\<rparr>"
    by (simp only: i w)
  have "ws ! (1 * (3 - 2 + 1) + 0) = window ?m 2 1 0" by (rule p) simp_all
  then have w2: "ws ! 2 = \<lparr>nrows = 2, ncols = 2, cells = [1, 0,  1, 1], cls2 = NpNdarray\<rparr>"
    by (simp only: i w)
  have "ws ! (1 * (3 - 2 + 1) + 1) = window ?m 2 1 1" by (rule p) simp_all
  then have w3: "ws ! 3 = \<lparr>nrows = 2, ncols = 2, cells = [0, 1,  1, 1], cls2 = NpNdarray\<rparr>"
    by (simp only: i w)
  have "((3::nat) - 2 + 1)\<^sup>2 = 4" by (simp add: power2_eq_square)
  with l have l4: "length ws = 4" by (simp only:)
  from g have g2: "get_rolling_windows ?sq 2 = Inr ws" by simp
  from wf g2 l4 w0 w1 w2 w3 show ?thesis by (intro conjI exI [of _ ws])
qed

text \<open>
  Claim C4. The claim asks, of every valid grid, that \<^verbatim>\<open>find_largest_sub_square\<close> raise
  \<^verbatim>\<open>SubSquareDNEError\<close> exactly when no cell is 1, and otherwise return a result. The
  constructor accepts the all-zero \<^verbatim>\<open>np.matrix\<close> of side 3, no cell of which is 1, and
  on that grid the search raises \<^verbatim>\<open>ValueError\<close> out of \<^verbatim>\<open>np.concatenate\<close>; on the
  base-class array with the same cells it raises \<^verbatim>\<open>SubSquareDNEError\<close>, as the claim says.
\<close>

theorem find_largest_np_matrix_zeros_raises:
  "Square (PyNdarray np_matrix_zeros) = Inr \<lparr>matrix = matrix_zeros\<lparr>cls2 := NpMatrix\<rparr>\<rparr> \<and>
   1 \<notin> set (flat np_matrix_zeros) \<and>
   find_largest_sub_square (PySquare \<lparr>matrix = matrix_zeros\<lparr>cls2 := NpMatrix\<rparr>\<rparr>) =
     Inl ValueError \<and>
   Square (PyNdarray grid_zeros) = Inr \<lparr>matrix = matrix_zeros\<rparr> \<and>
   find_largest_sub_square (PySquare \<lparr>matrix = matrix_zeros\<rparr>) = Inl SubSquareDNEError"
proof -
  have "find_largest_sub_square (PySquare \<lparr>matrix = matrix_zeros\<lparr>cls2 := NpMatrix\<rparr>\<rparr>) =
     Inl ValueError"
    by (rule find_largest_np_matrix [where n = 3]) simp_all
  moreover have "1 \<notin> set (flat np_matrix_zeros)"
    by (simp add: np_matrix_zeros_def)
  ultimately show ?thesis
    using Square_np_matrices(2) Square_grid_zeros find_largest_grid_zeros by (intro conjI)
qed

text \<open>
  Claim C5, as amended. Constructing a \<^verbatim>\<open>Square\<close> from an array that is not 2-dimensional,
  or whose row count differs from its column count, fails with \<^verbatim>\<open>ValueError\<close>: the same
  class the constructor raises for non-binary elements. The code has no separate class
  for shape errors (its docstring and its tests name \<^verbatim>\<open>ValueError\<close> for all three), so
  the three failures are indistinguishable by class, as the arrays of the unit tests show.
\<close>

theorem Square_shape_error_is_ValueError:
  assumes "ndim a \<noteq> 2 \<or> (ndim a = 2 \<and> shape a ! 0 \<noteq> shape a ! 1)"
  shows "Square (PyNdarray a) = Inl ValueError"
  using assms by (auto simp: Square_PyNdarray)

theorem Square_shape_error_is_ValueError_witness:
  "Square (PyNdarray cube_zeros) = Inl ValueError \<and>
   Square (PyNdarray oblong_zeros) = Inl ValueError"
proof -
  have "ndim cube_zeros \<noteq> 2 \<or> (ndim cube_zeros = 2 \<and> shape cube_zeros ! 0 \<noteq> shape cube_zeros ! 1)"
    by (simp add: cube_zeros_def ndim_def)
  moreover have "ndim oblong_zeros \<noteq> 2 \<or> (ndim oblong_zeros = 2 \<and> shape oblong_zeros ! 0 \<noteq> shape oblong_zeros ! 1)"
    by (simp add: oblong_zeros_def ndim_def)
  ultimately show ?thesis
    using Square_shape_error_is_ValueError by blast
qed

theorem shape_error_not_distinct_counterexample:
  "Square (PyNdarray cube_zeros) = Square (PyNdarray grid_with_3) \<and>
   Square (PyNdarray oblong_zeros) = Square (PyNdarray grid_with_3) \<and>
   Square (PyNdarray grid_with_3) = Inl ValueError"
  by (simp add: Square_PyNdarray cube_zeros_def oblong_zeros_def grid_with_3_def ndim_def)

text \<open>
  Claim C6. A size above the side of the grid, or below 1, makes
  \<^verbatim>\<open>_get_rolling_windows\<close> raise \<^verbatim>\<open>ValueError\<close> before it yields any window. This
  holds for every square, valid or not.
\<close>

theorem get_rolling_windows_invalid_size:
  assumes "sub_square_size > size_sq sq \<or> sub_square_size < 1"
  shows "get_rolling_windows sq sub_square_size = Inl ValueError"
  using assms by (simp add: get_rolling_windows_def Let_def)

theorem get_rolling_windows_invalid_size_witness:
  "Square (PyNdarray square_3x3) =
     Inr \<lparr>matrix = matrix_3x3\<rparr> \<and>
   get_rolling_windows \<lparr>matrix = matrix_3x3\<rparr> 4
     = Inl ValueError \<and>
   get_rolling_windows \<lparr>matrix = matrix_3x3\<rparr> 0
     = Inl ValueError \<and>
   get_rolling_windows \<lparr>matrix = matrix_3x3\<rparr> (- 2)
     = Inl ValueError"
proof -
  let ?sq = "\<lparr>matrix = matrix_3x3\<rparr>"
  have s: "size_sq ?sq = 3" by (simp add: size_sq_def)
  have "get_rolling_windows ?sq 4 = Inl ValueError"
    by (rule get_rolling_windows_invalid_size) (simp add: s)
  moreover have "get_rolling_windows ?sq 0 = Inl ValueError"
    by (rule get_rolling_windows_invalid_size) (simp add: s)
  moreover have "get_rolling_windows ?sq (- 2) = Inl ValueError"
    by (rule get_rolling_windows_invalid_size) (simp add: s)
  ultimately show ?thesis using Square_square_3x3 by simp
qed

text \<open>
  Claim C7. \<^verbatim>\<open>find_largest_sub_square\<close> applied to a value that is not a \<^verbatim>\<open>Square\<close>
  (a raw array, for instance) raises \<^verbatim>\<open>TypeError\<close>, whatever the value holds.
\<close>

theorem find_largest_rejects_non_square:
  assumes "\<forall>sq. square \<noteq> PySquare sq"
  shows "find_largest_sub_square square = Inl TypeError"
  using assms by (cases square) (simp_all add: find_largest_sub_square_def)

theorem find_largest_rejects_non_square_witness:
  "find_largest_sub_square (PyNdarray grid_zeros) = Inl TypeError \<and>
   find_largest_sub_square (PyNdarray grid_0_1_1) = Inl TypeError \<and>
   find_largest_sub_square PyNone = Inl TypeError"
proof -
  have "\<forall>sq. PyNdarray a \<noteq> PySquare sq" for a by simp
  from find_largest_rejects_non_square [OF this] have n: "find_largest_sub_square (PyNdarray a) = Inl TypeError" for a .
  have "\<forall>sq. PyNone \<noteq> PySquare sq" by simp
  from find_largest_rejects_non_square [OF this] n show ?thesis by simp
qed

text \<open>
  Claim C8. The claim asks, of every valid grid that contains a placement of size \<open>k\<close>
  with a perimeter of ones, that \<^verbatim>\<open>find_largest_sub_square\<close> succeed with a size of
  at least \<open>k\<close>. The constructor accepts the 4-by-4 ring of ones as an \<^verbatim>\<open>np.matrix\<close>,
  whose whole border is ones, and on that grid the search raises \<^verbatim>\<open>ValueError\<close> out of
  \<^verbatim>\<open>np.concatenate\<close>; on the base-class array with the same cells it returns size 4.
\<close>

theorem find_largest_np_matrix_4x4_raises:
  "Square (PyNdarray np_matrix_4x4) = Inr \<lparr>matrix = matrix_4x4\<lparr>cls2 := NpMatrix\<rparr>\<rparr> \<and>
   find_largest_sub_square (PySquare \<lparr>matrix = matrix_4x4\<lparr>cls2 := NpMatrix\<rparr>\<rparr>) =
     Inl ValueError \<and>
   find_largest_sub_square (PySquare \<lparr>matrix = matrix_4x4\<rparr>) = Inr (matrix_4x4, 4)"
proof -
  have "find_largest_sub_square (PySquare \<lparr>matrix = matrix_4x4\<lparr>cls2 := NpMatrix\<rparr>\<rparr>) =
     Inl ValueError"
    by (rule find_largest_np_matrix [where n = 4]) simp_all
  with Square_np_matrices(3) find_largest_plain_4x4 show ?thesis by (intro conjI)
qed

text \<open>
  Claim C10. Constructing a \<^verbatim>\<open>Square\<close> from a value that is not a NumPy array
  (\<^verbatim>\<open>None\<close>, a nested list) raises \<^verbatim>\<open>TypeError\<close>: the test comes before the shape
  and element checks, so no such value gives \<^verbatim>\<open>ValueError\<close>.
\<close>

theorem Square_rejects_non_ndarray:
  assumes "\<forall>a. m \<noteq> PyNdarray a"
  shows "Square m = Inl TypeError"
  using assms by (cases m) (simp_all add: Square_def valid_matrix_def)

theorem Square_rejects_non_ndarray_witness:
  "Square PyNone = Inl TypeError \<and>
   Square (PyList [PyList [PyInt 1, PyInt 0], PyList [PyInt 0, PyInt 1]]) = Inl TypeError \<and>
   Square (PyList [PyList [PyInt 3, PyInt 0, PyInt 7]]) = Inl TypeError"
proof -
  have "\<forall>a. PyNone \<noteq> PyNdarray a" by simp
  moreover have "\<forall>a. PyList xs \<noteq> PyNdarray a" for xs by simp
  ultimately show ?thesis
    using Square_rejects_non_ndarray by blast
qed

end
